theory Spec2Isabelle
  imports Complex_Main "HOL-Library.Multiset" "HOL-Library.Log_Nat"
begin

section \<open>Data model\<close>

text \<open>
  The approval engine of the expense manager: the Mongoose schemas
  (\<^verbatim>\<open>models/Expense.js\<close>, \<^verbatim>\<open>models/ApprovalRule.js\<close>), the service
  \<^verbatim>\<open>services/approvalService.js\<close> and the two controller entry points that write
  approval state (\<^verbatim>\<open>ExpenseController.createExpense\<close>,
  \<^verbatim>\<open>AdminController.overrideApproval\<close>).

  ObjectIds are natural numbers, JavaScript numbers that carry money are reals, sequence
  numbers and priorities are integers, \<^verbatim>\<open>new Date()\<close> is a time stamp handed in by the
  caller (one per request), and the string enums stay strings, because the code assigns
  and compares string literals and the schema validators decide which of them can be stored.
  A field that may be \<^verbatim>\<open>undefined\<close> is an option. Fields that play no part in approval
  (description, receipt, OCR data, currency codes, names) are left out.
\<close>

type_synonym user_id = nat
type_synonym company_id = nat
type_synonym expense_id = nat
type_synonym date = nat

text \<open>The fields of a User document that the approval code reads.\<close>

record user =
  manager :: "user_id option"
  department :: "string option"

text \<open>The User collection: \<^verbatim>\<open>User.findById\<close> and \<^verbatim>\<open>populate\<close> look ids up in it.\<close>

type_synonym users = "user_id \<rightharpoonup> user"

subsection \<open>ApprovalRule schema\<close>

record rule_conditions =
  minAmount :: real
  maxAmount :: real
  categories :: "string list"
  departments :: "string list"

record rule_approver =
  user :: user_id
  sequence :: int
  isRequired :: bool

record rule_rules =
  rule_type :: string
  percentageRequired :: "nat option"
  specificApprovers :: "user_id list"
  requireManagerApproval :: bool

record approvalRule =
  company :: company_id
  conditions :: rule_conditions
  approvers :: "rule_approver list"
  rules :: rule_rules
  isActive :: bool
  priority :: int

subsection \<open>Expense schema\<close>

record approval =
  approver :: user_id
  sequence :: int
  status :: string
  comments :: "string option"
  approvedAt :: "date option"

record expense =
  employee :: user_id
  company :: company_id
  convertedAmount :: real
  category :: string
  status :: string
  approvals :: "approval list"
  currentApprovalLevel :: int
  finalApprover :: "user_id option"
  approvedAt :: "date option"
  rejectedAt :: "date option"
  rejectionReason :: "string option"

text \<open>The enums of the Expense schema.\<close>

definition category_enum :: "string list" where
  "category_enum = [''travel'', ''food'', ''accommodation'', ''transportation'',
     ''office_supplies'', ''entertainment'', ''other'']"

definition expense_status_enum :: "string list" where
  "expense_status_enum = [''pending'', ''approved'', ''rejected'', ''in_review'']"

definition approval_status_enum :: "string list" where
  "approval_status_enum = [''pending'', ''approved'', ''rejected'']"

datatype error =
    ExpenseNotFound
  | ApprovalNotFound
  | TypeError
  | ValidationError
  | FailedToDetermineApprovers
  | InvalidAmount
  | FailedToCreateExpense
  | InvalidDecision
  | FailedToOverrideApproval

section \<open>Persistence\<close>

text \<open>
  The Expense collection. \<^verbatim>\<open>expense.save()\<close> runs the schema validators and writes the
  document only when they pass; otherwise it rejects with a validation error and the
  collection keeps what it had. The validators of the modelled fields are the three
  enums. (Mongoose validates the paths that were modified; a document read from the
  collection passed the validators when it was written, so for such a document checking
  every path gives the same verdict.)
\<close>

type_synonym db = "expense_id \<rightharpoonup> expense"

definition validate :: "expense \<Rightarrow> bool" where
  "validate e \<longleftrightarrow>
     category e \<in> set category_enum \<and>
     expense.status e \<in> set expense_status_enum \<and>
     list_all (\<lambda>a. approval.status a \<in> set approval_status_enum) (approvals e)"

definition save :: "db \<Rightarrow> expense_id \<Rightarrow> expense \<Rightarrow> (error + expense) \<times> db" where
  "save d i e = (if validate e then (Inr e, d(i \<mapsto> e)) else (Inl ValidationError, d))"

section \<open>ApprovalService.determineApprovers\<close>

text \<open>
  The query \<^verbatim>\<open>ApprovalRule.find({company, isActive: true, 'conditions.minAmount': {$lte: v},
  'conditions.maxAmount': {$gte: v}})\<close> over the rule collection.
\<close>

definition rule_query :: "expense \<Rightarrow> approvalRule \<Rightarrow> bool" where
  "rule_query e r \<longleftrightarrow>
     approvalRule.company r = expense.company e \<and>
     isActive r \<and>
     minAmount (conditions r) \<le> convertedAmount e \<and>
     maxAmount (conditions r) \<ge> convertedAmount e"

text \<open>
  \<^verbatim>\<open>.sort({ priority: -1 })\<close>: descending priority. MongoDB leaves the order of equal
  keys open; the model keeps collection order among them.
\<close>

definition find_rules :: "approvalRule list \<Rightarrow> expense \<Rightarrow> approvalRule list" where
  "find_rules coll e = sort_key (\<lambda>r. - priority r) (filter (rule_query e) coll)"

definition pending_step :: "user_id \<Rightarrow> int \<Rightarrow> approval" where
  "pending_step u s =
     \<lparr>approver = u, sequence = s, status = ''pending'', comments = None, approvedAt = None\<rparr>"

text \<open>
  Sequence numbers are JavaScript Numbers, and \<^verbatim>\<open>approver.sequence + (... ? 1 : 0)\<close>
  is an addition of doubles: the exact sum rounded to the nearest double, ties to the even
  significand. The model holds the integer-valued Numbers as integers. Up to \<open>2^53\<close> in
  absolute value every integer is a double; beyond, the doubles are the multiples of
  \<open>2^k\<close> with a quotient below \<open>2^53\<close>, \<open>k\<close> being the bit length less 53.
  (A finite Number plus 0 or 1 never rounds to infinity.)
\<close>

definition round_to_double :: "int \<Rightarrow> int" where
  "round_to_double n =
     (if \<bar>n\<bar> \<le> 2 ^ 53 then n
      else
        (let k = nat (bitlen \<bar>n\<bar> - 53);
             q = \<bar>n\<bar> div 2 ^ k;
             r = \<bar>n\<bar> mod 2 ^ k;
             q' = (if 2 * r > 2 ^ k \<or> (2 * r = 2 ^ k \<and> odd q) then q + 1 else q)
         in sgn n * (q' * 2 ^ k)))"

definition number_add :: "int \<Rightarrow> int \<Rightarrow> int" where
  "number_add a b = round_to_double (a + b)"

text \<open>
  The \<^verbatim>\<open>forEach\<close> over \<^verbatim>\<open>rule.approvers\<close>. The query populated \<^verbatim>\<open>approvers.user\<close>;
  a reference to a user that does not exist is populated as \<^verbatim>\<open>null\<close>, and
  \<^verbatim>\<open>approver.user._id\<close> then throws (\<open>None\<close> here).
\<close>

fun rule_steps :: "users \<Rightarrow> int \<Rightarrow> rule_approver list \<Rightarrow> approval list option" where
  "rule_steps us shift [] = Some []"
| "rule_steps us shift (a # as) =
     (case us (user a) of
        None \<Rightarrow> None
      | Some _ \<Rightarrow>
          (case rule_steps us shift as of
             None \<Rightarrow> None
           | Some steps \<Rightarrow>
               Some (pending_step (user a) (number_add (rule_approver.sequence a) shift) # steps)))"

text \<open>
  The manager block: \<^verbatim>\<open>User.findById(expense.employee)\<close>, then \<^verbatim>\<open>employee.manager\<close>,
  which throws when the employee document is missing.
\<close>

definition manager_steps :: "users \<Rightarrow> expense \<Rightarrow> int \<Rightarrow> approval list option" where
  "manager_steps us e s =
     (case us (employee e) of
        None \<Rightarrow> None
      | Some emp \<Rightarrow>
          (case manager emp of
             Some m \<Rightarrow> Some [pending_step m s]
           | None \<Rightarrow> Some []))"

text \<open>
  Every exception inside \<^verbatim>\<open>determineApprovers\<close> is caught and rethrown as
  \<^verbatim>\<open>Error('Failed to determine approvers')\<close>. \<^verbatim>\<open>Array.prototype.sort\<close> is stable,
  as \<open>sort_key\<close> is.
\<close>

definition determineApprovers :: "approvalRule list \<Rightarrow> users \<Rightarrow> expense \<Rightarrow> error + approval list" where
  "determineApprovers coll us e =
     (case find_rules coll e of
        [] \<Rightarrow>
          (case manager_steps us e 1 of
             None \<Rightarrow> Inl FailedToDetermineApprovers
           | Some chain \<Rightarrow> Inr chain)
      | rule # _ \<Rightarrow>
          (case (if requireManagerApproval (rules rule) then manager_steps us e 0 else Some []) of
             None \<Rightarrow> Inl FailedToDetermineApprovers
           | Some mgr \<Rightarrow>
               (case rule_steps us (if requireManagerApproval (rules rule) then 1 else 0)
                       (approvers rule) of
                  None \<Rightarrow> Inl FailedToDetermineApprovers
                | Some steps \<Rightarrow> Inr (sort_key approval.sequence (mgr @ steps)))))"

section \<open>ApprovalService.processApproval\<close>

text \<open>
  \<^verbatim>\<open>expense.approvals.findIndex(a => a.approver._id.toString() === approverId.toString()
  && a.status === 'pending')\<close> on the populated document. \<open>Inr None\<close> is the index
  \<^verbatim>\<open>-1\<close>. The callback runs from the front until it first holds; on a step whose
  approver was populated as \<^verbatim>\<open>null\<close> it throws a \<^verbatim>\<open>TypeError\<close>.
\<close>

fun findIndex_pending :: "users \<Rightarrow> user_id \<Rightarrow> approval list \<Rightarrow> error + nat option" where
  "findIndex_pending us approverId [] = Inr None"
| "findIndex_pending us approverId (a # as) =
     (case us (approver a) of
        None \<Rightarrow> Inl TypeError
      | Some _ \<Rightarrow>
          if approver a = approverId \<and> approval.status a = ''pending'' then Inr (Some 0)
          else
            (case findIndex_pending us approverId as of
               Inl err \<Rightarrow> Inl err
             | Inr None \<Rightarrow> Inr None
             | Inr (Some i) \<Rightarrow> Inr (Some (Suc i))))"

text \<open>
  \<^verbatim>\<open>expense.approvals.find((approval, index) => index > approvalIndex &&
  approval.status === 'pending')\<close>.
\<close>

definition nextPendingApproval :: "nat \<Rightarrow> approval list \<Rightarrow> approval option" where
  "nextPendingApproval approvalIndex as =
     map_option snd
       (find (\<lambda>(index, a). index > approvalIndex \<and> approval.status a = ''pending'')
          (enumerate 0 as))"

text \<open>
  The body of \<^verbatim>\<open>processApproval\<close>. The result pairs what the caller gets (the saved
  document, or the error that is rethrown) with the collection afterwards. Nothing but
  \<^verbatim>\<open>save\<close> writes the collection, so every error leaves it as it was.
\<close>

definition processApproval ::
  "db \<Rightarrow> users \<Rightarrow> expense_id \<Rightarrow> user_id \<Rightarrow> string \<Rightarrow> string option \<Rightarrow> date
     \<Rightarrow> (error + expense) \<times> db" where
  "processApproval d us expenseId approverId decision cmts now =
     (case d expenseId of
        None \<Rightarrow> (Inl ExpenseNotFound, d)
      | Some e \<Rightarrow>
          (case findIndex_pending us approverId (approvals e) of
             Inl err \<Rightarrow> (Inl err, d)
           | Inr None \<Rightarrow> (Inl ApprovalNotFound, d)
           | Inr (Some approvalIndex) \<Rightarrow>
               (let step = (approvals e ! approvalIndex)
                      \<lparr>approval.status := decision, comments := cmts,
                       approval.approvedAt := Some now\<rparr>;
                    e1 = e\<lparr>approvals := (approvals e)[approvalIndex := step]\<rparr>;
                    e2 =
                      (if decision = ''rejected'' then
                         e1\<lparr>expense.status := ''rejected'', rejectedAt := Some now,
                            rejectionReason := cmts\<rparr>
                       else if decision = ''approved'' then
                         (case nextPendingApproval approvalIndex (approvals e1) of
                            None \<Rightarrow>
                              e1\<lparr>expense.status := ''approved'',
                                 expense.approvedAt := Some now,
                                 finalApprover := Some approverId\<rparr>
                          | Some nxt \<Rightarrow>
                              e1\<lparr>currentApprovalLevel := approval.sequence nxt\<rparr>)
                       else e1)
                in save d expenseId e2)))"

section \<open>AdminController.overrideApproval\<close>

text \<open>
  The handler after authentication: \<^verbatim>\<open>admin\<close> and \<^verbatim>\<open>adminCompany\<close> are
  \<^verbatim>\<open>req.user._id\<close> and \<^verbatim>\<open>req.user.company._id\<close>. An invalid decision is the 400
  response, a missing expense (or one of another company) the 404, and any exception,
  the validation error of \<^verbatim>\<open>save\<close> included, the 500 response
  \<^verbatim>\<open>'Failed to override approval'\<close>.
\<close>

definition override_step :: "date \<Rightarrow> approval \<Rightarrow> approval" where
  "override_step now a =
     (if approval.status a = ''pending'' then
        a\<lparr>approval.status := ''overridden'', comments := Some ''Overridden by admin'',
          approval.approvedAt := Some now\<rparr>
      else a)"

definition overrideApproval ::
  "db \<Rightarrow> user_id \<Rightarrow> company_id \<Rightarrow> expense_id \<Rightarrow> string \<Rightarrow> string option \<Rightarrow> date
     \<Rightarrow> (error + expense) \<times> db" where
  "overrideApproval d admin adminCompany expenseId decision cmts now =
     (if decision \<notin> set [''approved'', ''rejected''] then (Inl InvalidDecision, d)
      else
        (case d expenseId of
           None \<Rightarrow> (Inl ExpenseNotFound, d)
         | Some e \<Rightarrow>
             if expense.company e \<noteq> adminCompany then (Inl ExpenseNotFound, d)
             else
               (let e1 = e\<lparr>expense.status := decision, finalApprover := Some admin\<rparr>;
                    e2 =
                      (if decision = ''approved'' then e1\<lparr>expense.approvedAt := Some now\<rparr>
                       else e1\<lparr>rejectedAt := Some now, rejectionReason := cmts\<rparr>);
                    e3 = e2\<lparr>approvals := map (override_step now) (approvals e2)\<rparr>
                in (case save d expenseId e3 of
                      (Inl _, d') \<Rightarrow> (Inl FailedToOverrideApproval, d')
                    | (Inr saved, d') \<Rightarrow> (Inr saved, d')))))"

section \<open>ExpenseController.createExpense\<close>

text \<open>
  The handler from the amount check on. \<^verbatim>\<open>numAmount\<close> is the parsed request amount,
  \<^verbatim>\<open>converted\<close> what the currency service returned for it, \<^verbatim>\<open>newId\<close> the
  ObjectId Mongoose gives the new document. The new document starts from the schema
  defaults (status \<^verbatim>\<open>'pending'\<close>, level 0). A non-positive amount is the 400 response;
  any exception, from \<^verbatim>\<open>determineApprovers\<close> or from \<^verbatim>\<open>save\<close>, is the 500
  response \<^verbatim>\<open>'Failed to create expense'\<close>.
\<close>

definition new_expense :: "user_id \<Rightarrow> company_id \<Rightarrow> real \<Rightarrow> string \<Rightarrow> expense" where
  "new_expense empId companyId converted cat =
     \<lparr>employee = empId, company = companyId, convertedAmount = converted, category = cat,
      status = ''pending'', approvals = [], currentApprovalLevel = 0, finalApprover = None,
      approvedAt = None, rejectedAt = None, rejectionReason = None\<rparr>"

definition createExpense ::
  "db \<Rightarrow> approvalRule list \<Rightarrow> users \<Rightarrow> expense_id \<Rightarrow> user_id \<Rightarrow> company_id \<Rightarrow> real \<Rightarrow> real
     \<Rightarrow> string \<Rightarrow> date \<Rightarrow> (error + expense) \<times> db" where
  "createExpense d coll us newId empId companyId numAmount converted cat now =
     (if numAmount \<le> 0 then (Inl InvalidAmount, d)
      else
        (let e = new_expense empId companyId converted cat in
         case determineApprovers coll us e of
           Inl _ \<Rightarrow> (Inl FailedToCreateExpense, d)
         | Inr chain \<Rightarrow>
             (let e1 = e\<lparr>approvals := chain\<rparr>;
                  e2 =
                    (if length chain > 0 then
                       e1\<lparr>expense.status := ''in_review'',
                          currentApprovalLevel := approval.sequence (chain ! 0)\<rparr>
                     else
                       e1\<lparr>expense.status := ''approved'', expense.approvedAt := Some now\<rparr>)
              in (case save d newId e2 of
                    (Inl _, d') \<Rightarrow> (Inl FailedToCreateExpense, d')
                  | (Inr saved, d') \<Rightarrow> (Inr saved, d')))))"

section \<open>ExpenseController.approveExpense\<close>

text \<open>
  The only caller of \<^verbatim>\<open>processApproval\<close>: it answers 400 to a decision other than
  \<^verbatim>\<open>'approved'\<close> or \<^verbatim>\<open>'rejected'\<close> and otherwise hands the request on; an error
  thrown by the service becomes the 500 response with the error's own message.
\<close>

definition approveExpense ::
  "db \<Rightarrow> users \<Rightarrow> expense_id \<Rightarrow> user_id \<Rightarrow> string \<Rightarrow> string option \<Rightarrow> date
     \<Rightarrow> (error + expense) \<times> db" where
  "approveExpense d us expenseId approverId decision cmts now =
     (if decision \<notin> set [''approved'', ''rejected''] then (Inl InvalidDecision, d)
      else processApproval d us expenseId approverId decision cmts now)"

section \<open>Histories of requests\<close>

text \<open>
  The requests that write approval state, each with the rule and user collections as
  they are when it arrives, and their effect on the Expense collection.
\<close>

datatype request =
    CreateExpense "approvalRule list" users expense_id user_id company_id real real string date
  | ApproveExpense users expense_id user_id string "string option" date
  | OverrideApproval user_id company_id expense_id string "string option" date

fun handle :: "db \<Rightarrow> request \<Rightarrow> db" where
  "handle d (CreateExpense coll us newId empId companyId numAmount converted cat now) =
     snd (createExpense d coll us newId empId companyId numAmount converted cat now)"
| "handle d (ApproveExpense us expenseId approverId decision cmts now) =
     snd (approveExpense d us expenseId approverId decision cmts now)"
| "handle d (OverrideApproval admin adminCompany expenseId decision cmts now) =
     snd (overrideApproval d admin adminCompany expenseId decision cmts now)"

text \<open>Every step of every stored expense carries a status of the schema's enum.\<close>

definition stored_steps_in_enum :: "db \<Rightarrow> bool" where
  "stored_steps_in_enum d \<longleftrightarrow>
     (\<forall>i e. d i = Some e \<longrightarrow>
        list_all (\<lambda>a. approval.status a \<in> set approval_status_enum) (approvals e))"

section \<open>Notions of the specification\<close>

text \<open>
  Rule matching in the words of the specification: the converted amount lies in
  \<open>[minAmount, maxAmount]\<close>, the categories are empty or contain the expense's
  category, and the departments are empty or contain the employee's department.
\<close>

definition spec_rule_matches :: "expense \<Rightarrow> user \<Rightarrow> approvalRule \<Rightarrow> bool" where
  "spec_rule_matches e emp r \<longleftrightarrow>
     minAmount (conditions r) \<le> convertedAmount e \<and>
     convertedAmount e \<le> maxAmount (conditions r) \<and>
     (categories (conditions r) = [] \<or> category e \<in> set (categories (conditions r))) \<and>
     (departments (conditions r) = [] \<or>
        (case department emp of
           None \<Rightarrow> False
         | Some dep \<Rightarrow> dep \<in> set (departments (conditions r))))"

text \<open>
  The number of approvals the specification asks of a percentage policy with threshold
  \<open>T\<close> on a chain of \<open>N\<close> steps, \<open>ceil(T/100 * N)\<close>, and the number of approvals
  recorded on an expense.
\<close>

definition spec_percentage_required :: "nat \<Rightarrow> nat \<Rightarrow> nat" where
  "spec_percentage_required T N = nat \<lceil>real T / 100 * real N\<rceil>"

definition approved_count :: "expense \<Rightarrow> nat" where
  "approved_count e = length (filter (\<lambda>a. approval.status a = ''approved'') (approvals e))"

section \<open>Sample data\<close>

text \<open>
  Employee 1 reports to manager 10 and works in sales, employee 2 has no manager;
  10, 11 and 12 are managers.
\<close>

definition ex_users :: users where
  "ex_users =
     [1 \<mapsto> \<lparr>manager = Some 10, department = Some ''sales''\<rparr>,
      2 \<mapsto> \<lparr>manager = None, department = None\<rparr>,
      10 \<mapsto> \<lparr>manager = None, department = None\<rparr>,
      11 \<mapsto> \<lparr>manager = None, department = None\<rparr>,
      12 \<mapsto> \<lparr>manager = None, department = None\<rparr>]"

definition ex_expense :: "user_id \<Rightarrow> string \<Rightarrow> approval list \<Rightarrow> expense" where
  "ex_expense empId st as =
     \<lparr>employee = empId, company = 1, convertedAmount = 500, category = ''food'',
      status = st, approvals = as, currentApprovalLevel = 0, finalApprover = None,
      approvedAt = None, rejectedAt = None, rejectionReason = None\<rparr>"

definition ex_rule ::
  "string \<Rightarrow> nat option \<Rightarrow> string list \<Rightarrow> bool \<Rightarrow> int \<Rightarrow> rule_approver list \<Rightarrow> approvalRule" where
  "ex_rule ty pct cats mgr prio as =
     \<lparr>approvalRule.company = 1,
      conditions = \<lparr>minAmount = 0, maxAmount = 1000, categories = cats, departments = []\<rparr>,
      approvers = as,
      rules = \<lparr>rule_type = ty, percentageRequired = pct, specificApprovers = [],
                requireManagerApproval = mgr\<rparr>,
      isActive = True, priority = prio\<rparr>"

definition decided_step :: "user_id \<Rightarrow> int \<Rightarrow> string \<Rightarrow> date \<Rightarrow> approval" where
  "decided_step u s st t =
     \<lparr>approver = u, sequence = s, status = st, comments = None, approvedAt = Some t\<rparr>"

lemmas model_defs =
  processApproval_def approveExpense_def overrideApproval_def createExpense_def
  determineApprovers_def find_rules_def rule_query_def manager_steps_def
  nextPendingApproval_def override_step_def new_expense_def pending_step_def
  number_add_def round_to_double_def
  save_def validate_def category_enum_def expense_status_enum_def approval_status_enum_def

lemmas sample_defs = ex_users_def ex_expense_def ex_rule_def decided_step_def

section \<open>Facts about the two searches of processApproval\<close>



lemma findIndex_pending_first:
  "\<forall>s \<in> set as. us (approver s) \<noteq> None \<Longrightarrow> i < length as \<Longrightarrow>
   approver (as ! i) = a \<Longrightarrow> approval.status (as ! i) = ''pending'' \<Longrightarrow>
   \<forall>j<i. \<not> (approver (as ! j) = a \<and> approval.status (as ! j) = ''pending'') \<Longrightarrow>
   findIndex_pending us a as = Inr (Some i)"
proof (induction as arbitrary: i)
  case Nil
  then show ?case by simp
next
  case (Cons x xs)
  show ?case
  proof (cases i)
    case 0
    with Cons.prems show ?thesis by auto
  next
    case (Suc k)
    with Cons.prems have nx: "\<not> (approver x = a \<and> approval.status x = ''pending'')"
      by (metis nth_Cons_0 zero_less_Suc)
    have "findIndex_pending us a xs = Inr (Some k)"
    proof (rule Cons.IH)
      show "\<forall>s\<in>set xs. us (approver s) \<noteq> None" using Cons.prems(1) by simp
      show "k < length xs" using Cons.prems(2) Suc by simp
      show "approver (xs ! k) = a" using Cons.prems(3) Suc by simp
      show "approval.status (xs ! k) = ''pending''" using Cons.prems(4) Suc by simp
      show "\<forall>j<k. \<not> (approver (xs ! j) = a \<and> approval.status (xs ! j) = ''pending'')"
        using Cons.prems(5) Suc by (metis Suc_less_eq nth_Cons_Suc)
    qed
    with nx Cons.prems(1) Suc show ?thesis by auto
  qed
qed

text \<open>The search with an index bound is a search in the rest of the list.\<close>

lemma find_enumerate_drop:
  "map_option snd (find (\<lambda>(index, a). index > i \<and> P a) (enumerate n as)) =
     find P (drop (Suc i - n) as)"
proof (induction as arbitrary: n)
  case Nil
  then show ?case by simp
next
  case (Cons x xs)
  show ?case
  proof (cases "n > i")
    case True
    then have "Suc i - n = 0" "Suc i - Suc n = 0" by simp_all
    with Cons.IH [of "Suc n"] True show ?thesis by simp
  next
    case False
    then have "Suc i - n = Suc (i - n)" "Suc i - Suc n = i - n" by simp_all
    with Cons.IH [of "Suc n"] False show ?thesis by simp
  qed
qed

lemma nextPendingApproval_drop:
  "nextPendingApproval i as = find (\<lambda>a. approval.status a = ''pending'') (drop (Suc i) as)"
  unfolding nextPendingApproval_def using find_enumerate_drop [of i _ 0 as] by simp

lemma nextPendingApproval_None:
  "nextPendingApproval i as = None \<longleftrightarrow>
     (\<forall>j. i < j \<and> j < length as \<longrightarrow> approval.status (as ! j) \<noteq> ''pending'')"
proof -
  have "nextPendingApproval i as = None \<longleftrightarrow>
      (\<forall>a \<in> set (drop (Suc i) as). approval.status a \<noteq> ''pending'')"
    by (auto simp: nextPendingApproval_drop find_None_iff)
  also have "\<dots> \<longleftrightarrow> (\<forall>k < length as - Suc i. approval.status (as ! (Suc i + k)) \<noteq> ''pending'')"
    by (simp add: all_set_conv_all_nth)
  also have "\<dots> \<longleftrightarrow> (\<forall>j. i < j \<and> j < length as \<longrightarrow> approval.status (as ! j) \<noteq> ''pending'')"
  proof (intro iffI allI impI)
    fix j assume h: "\<forall>k < length as - Suc i. approval.status (as ! (Suc i + k)) \<noteq> ''pending''"
      and j: "i < j \<and> j < length as"
    then have "j - Suc i < length as - Suc i" by linarith
    with h have "approval.status (as ! (Suc i + (j - Suc i))) \<noteq> ''pending''" by blast
    with j show "approval.status (as ! j) \<noteq> ''pending''" by simp
  next
    fix k assume h: "\<forall>j. i < j \<and> j < length as \<longrightarrow> approval.status (as ! j) \<noteq> ''pending''"
      and k: "k < length as - Suc i"
    then show "approval.status (as ! (Suc i + k)) \<noteq> ''pending''" by simp
  qed
  finally show ?thesis .
qed

section \<open>What a call of processApproval returns\<close>

lemma save_cases:
  "save d i e = (r, d') \<Longrightarrow>
     (validate e \<and> r = Inr e \<and> d' = d(i \<mapsto> e)) \<or> (\<not> validate e \<and> r = Inl ValidationError \<and> d' = d)"
  by (auto simp: save_def split: if_splits)



lemma length_filter_prefix:
  assumes "m \<le> length xs" "\<forall>j < length xs. P (xs ! j) \<longleftrightarrow> j < m"
  shows "length (filter P xs) = m"
proof -
  have t: "filter P (take m xs) = take m xs"
    using assms by (auto simp: filter_id_conv in_set_conv_nth)
  have "\<forall>x \<in> set (drop m xs). \<not> P x"
  proof
    fix x assume "x \<in> set (drop m xs)"
    then obtain j where "j < length xs - m" "x = drop m xs ! j"
      by (auto simp: in_set_conv_nth)
    then have "x = xs ! (m + j)" "m + j < length xs" using assms(1) by simp_all
    with assms(2) show "\<not> P x" by auto
  qed
  then have dr: "filter P (drop m xs) = []" by (simp add: filter_empty_conv)
  have "filter P xs = filter P (take m xs) @ filter P (drop m xs)"
    by (metis append_take_drop_id filter_append)
  with t dr assms(1) show ?thesis by simp
qed

section \<open>Facts about rule selection and chain construction\<close>




lemma determineApprovers_rule:
  "find_rules coll e = r # rs \<Longrightarrow>
   determineApprovers coll us e =
     (case (if requireManagerApproval (rules r) then manager_steps us e 0 else Some []) of
        None \<Rightarrow> Inl FailedToDetermineApprovers
      | Some mgr \<Rightarrow>
          (case rule_steps us (if requireManagerApproval (rules r) then 1 else 0) (approvers r) of
             None \<Rightarrow> Inl FailedToDetermineApprovers
           | Some steps \<Rightarrow> Inr (sort_key approval.sequence (mgr @ steps))))"
  by (simp add: determineApprovers_def)

lemma determineApprovers_no_rule:
  "find_rules coll e = [] \<Longrightarrow>
   determineApprovers coll us e =
     (case manager_steps us e 1 of
        None \<Rightarrow> Inl FailedToDetermineApprovers
      | Some chain \<Rightarrow> Inr chain)"
  by (simp add: determineApprovers_def)


text \<open>
  Below \<open>2^53\<close> in absolute value the shift by 0 or 1 is exact; at \<open>2^53\<close> the
  shift by 1 is lost to rounding.
\<close>

lemma number_add_safe:
  "\<bar>n\<bar> < 2 ^ 53 \<Longrightarrow> s = 0 \<or> s = 1 \<Longrightarrow> number_add n s = n + s"
  by (auto simp: number_add_def round_to_double_def)

lemma number_add_rounds:
  "number_add (2 ^ 53) 1 = 2 ^ 53"
proof -
  have "bitlen (2 ^ 53 + 1) = 54"
    by (simp add: bitlen_alt_def floor_log_eq_powr_iff powr_realpow [symmetric] del: powr_realpow)
  then have b: "bitlen 9007199254740993 = 54" by simp
  show ?thesis
    by (simp add: number_add_def round_to_double_def b Let_def)
qed

lemma rule_steps_known:
  "\<forall>a \<in> set as. us (user a) \<noteq> None \<Longrightarrow>
   rule_steps us sh as =
     Some (map (\<lambda>a. pending_step (user a) (number_add (rule_approver.sequence a) sh)) as)"
  by (induction as) auto

lemma rule_steps_pending:
  "rule_steps us sh as = Some steps \<Longrightarrow> \<forall>s \<in> set steps. approval.status s = ''pending''"
  by (induction as arbitrary: steps) (auto simp: pending_step_def split: option.splits)

lemma manager_steps_pending:
  "manager_steps us e n = Some steps \<Longrightarrow> \<forall>s \<in> set steps. approval.status s = ''pending''"
  by (auto simp: manager_steps_def pending_step_def split: option.splits)

lemma determineApprovers_chain:
  assumes "determineApprovers coll us e = Inr chain"
  shows "sorted (map approval.sequence chain) \<and> (\<forall>s \<in> set chain. approval.status s = ''pending'')"
proof (cases "find_rules coll e")
  case Nil
  with assms have "manager_steps us e 1 = Some chain"
    by (auto simp: determineApprovers_no_rule split: option.splits)
  then show ?thesis
    by (auto simp: manager_steps_def pending_step_def split: option.splits)
next
  case (Cons r rs)
  with assms obtain mgr steps where
    m: "(if requireManagerApproval (rules r) then manager_steps us e 0 else Some []) = Some mgr"
    and s: "rule_steps us (if requireManagerApproval (rules r) then 1 else 0) (approvers r) = Some steps"
    and c: "chain = sort_key approval.sequence (mgr @ steps)"
    by (auto simp: determineApprovers_rule split: option.splits)
  from m have "\<forall>s \<in> set mgr. approval.status s = ''pending''"
    by (auto dest: manager_steps_pending split: if_splits)
  with rule_steps_pending [OF s] c show ?thesis by auto
qed

lemma insort_key_map_commute:
  "(\<And>x. f (g x) = f x) \<Longrightarrow> insort_key f (g x) (map g ys) = map g (insort_key f x ys)"
  by (induction ys) simp_all

lemma sort_key_map_commute:
  "(\<And>x. f (g x) = f x) \<Longrightarrow> sort_key f (map g xs) = map g (sort_key f xs)"
  by (induction xs) (simp_all add: insort_key_map_commute)

lemma find_rules_map_commute:
  assumes "\<And>r. rule_query e' (g r) = rule_query e r" "\<And>r. priority (g r) = priority r"
  shows "find_rules (map g coll) e' = map g (find_rules coll e)"
proof -
  have "filter (rule_query e') (map g coll) = map g (filter (rule_query e) coll)"
    using assms(1) by (induction coll) simp_all
  then show ?thesis
    unfolding find_rules_def using assms(2) by (simp add: sort_key_map_commute)
qed

lemma rule_steps_department:
  "rule_steps (\<lambda>i. map_option (\<lambda>u. u\<lparr>department := dep i\<rparr>) (us i)) sh as = rule_steps us sh as"
  by (induction as) (auto split: option.splits)

lemma manager_steps_department:
  "manager_steps (\<lambda>i. map_option (\<lambda>u. u\<lparr>department := dep i\<rparr>) (us i)) (e\<lparr>category := cat\<rparr>) n =
     manager_steps us e n"
  by (auto simp: manager_steps_def split: option.splits)

lemma sorted_first_Min:
  assumes "sorted (map f xs)" "xs \<noteq> []"
  shows "f (xs ! 0) = Min (f ` set xs)"
proof -
  from assms(2) obtain y ys where xs: "xs = y # ys" by (cases xs) auto
  with assms(1) have "\<forall>z \<in> set xs. f y \<le> f z" by auto
  then have "Min (f ` set xs) = f y"
    by (intro Min_eqI) (auto simp: xs)
  with xs show ?thesis by simp
qed

lemma createExpense_succeeds_iff:
  "(\<exists>e d'. createExpense d coll us newId empId companyId numAmount converted cat now = (Inr e, d')) \<longleftrightarrow>
     0 < numAmount \<and> cat \<in> set category_enum \<and>
     (\<exists>chain. determineApprovers coll us (new_expense empId companyId converted cat) = Inr chain)"
proof (cases "determineApprovers coll us (new_expense empId companyId converted cat)")
  case (Inl err)
  then show ?thesis by (simp add: createExpense_def Let_def)
next
  case (Inr chain)
  let ?e0 = "new_expense empId companyId converted cat"
  let ?e2 = "if length chain > 0 then
               ?e0\<lparr>approvals := chain, expense.status := ''in_review'',
                    currentApprovalLevel := approval.sequence (chain ! 0)\<rparr>
             else ?e0\<lparr>approvals := chain, expense.status := ''approved'',
                    expense.approvedAt := Some now\<rparr>"
  from determineApprovers_chain [OF Inr]
  have "list_all (\<lambda>a. approval.status a \<in> set approval_status_enum) chain"
    by (auto simp: list_all_iff approval_status_enum_def)
  then have v: "validate ?e2 \<longleftrightarrow> cat \<in> set category_enum"
    by (simp add: validate_def new_expense_def expense_status_enum_def)
  have "createExpense d coll us newId empId companyId numAmount converted cat now =
      (if numAmount \<le> 0 then (Inl InvalidAmount, d)
       else if validate ?e2 then (Inr ?e2, d(newId \<mapsto> ?e2))
       else (Inl FailedToCreateExpense, d))"
    using Inr by (simp add: createExpense_def Let_def save_def)
  with v Inr show ?thesis by auto
qed

section \<open>Every write goes through save\<close>

lemma save_stored_steps:
  "stored_steps_in_enum d \<Longrightarrow> stored_steps_in_enum (snd (save d i e))"
  by (auto simp: stored_steps_in_enum_def save_def validate_def)

lemma processApproval_db:
  "snd (processApproval d us i a dec c now) = d \<or>
   (\<exists>e. snd (processApproval d us i a dec c now) = snd (save d i e))"
  by (auto simp: processApproval_def Let_def split: option.splits sum.splits)

lemma snd_save_rewrap:
  "snd (case save d i e of (Inl x, d') \<Rightarrow> (Inl err, d') | (Inr saved, d') \<Rightarrow> (Inr saved, d')) =
     snd (save d i e)"
  by (simp add: save_def)

lemma overrideApproval_db:
  "snd (overrideApproval d adm cmp i dec c now) = d \<or>
   (\<exists>e. snd (overrideApproval d adm cmp i dec c now) = snd (save d i e))"
  unfolding overrideApproval_def Let_def
  by (simp add: snd_save_rewrap split: option.splits) blast

lemma createExpense_db:
  "snd (createExpense d coll us newId empId companyId numAmount converted cat now) = d \<or>
   (\<exists>e. snd (createExpense d coll us newId empId companyId numAmount converted cat now) =
      snd (save d newId e))"
  unfolding createExpense_def Let_def
  by (simp add: snd_save_rewrap split: sum.splits) blast

lemma handle_stored_steps:
  "stored_steps_in_enum d \<Longrightarrow> stored_steps_in_enum (handle d req)"
proof (cases req)
  case (CreateExpense coll us newId empId companyId numAmount converted cat now)
  assume "stored_steps_in_enum d"
  with CreateExpense createExpense_db [of d coll us newId empId companyId numAmount converted cat now]
  show ?thesis by (auto simp: save_stored_steps)
next
  case (ApproveExpense us i a dec c now)
  assume "stored_steps_in_enum d"
  with ApproveExpense processApproval_db [of d us i a dec c now]
  show ?thesis by (auto simp: approveExpense_def save_stored_steps)
next
  case (OverrideApproval adm cmp i dec c now)
  assume "stored_steps_in_enum d"
  with OverrideApproval overrideApproval_db [of d adm cmp i dec c now]
  show ?thesis by (auto simp: save_stored_steps)
qed

lemma foldl_handle_stored_steps:
  "stored_steps_in_enum d \<Longrightarrow> stored_steps_in_enum (foldl handle d reqs)"
  by (induction reqs arbitrary: d) (simp_all add: handle_stored_steps)

text \<open>An override of an expense with a pending step never gets past the validators.\<close>

lemma overrideApproval_pending_fails:
  assumes "d i = Some e" "expense.company e = adminCompany"
    "decision = ''approved'' \<or> decision = ''rejected''"
    "\<exists>s \<in> set (approvals e). approval.status s = ''pending''"
  shows "overrideApproval d admin adminCompany i decision cmts now =
           (Inl FailedToOverrideApproval, d)"
proof -
  from assms(4) obtain s where s: "s \<in> set (approvals e)" "approval.status s = ''pending''"
    by blast
  then have "approval.status (override_step now s) = ''overridden''"
    by (simp add: override_step_def)
  with s(1) have "\<not> list_all (\<lambda>a. approval.status a \<in> set approval_status_enum)
      (map (override_step now) (approvals e))"
    by (auto simp: list_all_iff approval_status_enum_def intro!: bexI [of _ s])
  then have "\<And>e'. approvals e' = map (override_step now) (approvals e) \<Longrightarrow> \<not> validate e'"
    by (simp add: validate_def)
  with assms(1-3) show ?thesis
    by (auto simp: overrideApproval_def Let_def save_def)
qed

section \<open>Sequential completion\<close>

text \<open>
  Claim C1: on a sequential chain of \<open>N\<close> steps the expense becomes
  \<^verbatim>\<open>'approved'\<close> if and only if exactly \<open>N\<close> approvals occur in sequence order with
  no rejection. The code looks for a pending step only behind the step just decided
  (its comment there reads "All approvals complete"), and nothing stops an approver
  whose turn has not come. On the chain \<open>[10, 11]\<close> with both steps pending, approver
  11 approves first: the expense is saved as \<^verbatim>\<open>'approved'\<close> with final approver 11,
  after one approval, while the step of approver 10 is still pending.
\<close>

theorem processApproval_last_approver_first:
  "processApproval
     [5 \<mapsto> ex_expense 1 ''in_review'' [pending_step 10 0, pending_step 11 1]]
     ex_users 5 11 ''approved'' None 100 =
   (Inr ((ex_expense 1 ''approved'' [pending_step 10 0, decided_step 11 1 ''approved'' 100])
           \<lparr>finalApprover := Some 11, expense.approvedAt := Some 100\<rparr>),
    [5 \<mapsto> (ex_expense 1 ''approved'' [pending_step 10 0, decided_step 11 1 ''approved'' 100])
           \<lparr>finalApprover := Some 11, expense.approvedAt := Some 100\<rparr>])"
  by (simp add: model_defs sample_defs Let_def)

section \<open>Decisions on a terminal expense\<close>

text \<open>
  Claim C3: a call of \<^verbatim>\<open>processApproval\<close> on an expense whose status is
  \<^verbatim>\<open>'approved'\<close> or \<^verbatim>\<open>'rejected'\<close> fails and changes nothing. The function never
  reads the expense's status. On the chain \<open>[10, 11]\<close> approver 10 has rejected, so the
  expense is \<^verbatim>\<open>'rejected'\<close> and the step of approver 11 is still pending; approver 11
  then approves: the call succeeds and the stored expense turns \<^verbatim>\<open>'approved'\<close>.
\<close>

theorem processApproval_after_rejection:
  "processApproval
     [5 \<mapsto> (ex_expense 1 ''rejected'' [decided_step 10 0 ''rejected'' 90, pending_step 11 1])
             \<lparr>rejectedAt := Some 90\<rparr>]
     ex_users 5 11 ''approved'' None 100 =
   (Inr ((ex_expense 1 ''approved''
            [decided_step 10 0 ''rejected'' 90, decided_step 11 1 ''approved'' 100])
           \<lparr>finalApprover := Some 11, expense.approvedAt := Some 100, rejectedAt := Some 90\<rparr>),
    [5 \<mapsto> (ex_expense 1 ''approved''
            [decided_step 10 0 ''rejected'' 90, decided_step 11 1 ''approved'' 100])
           \<lparr>finalApprover := Some 11, expense.approvedAt := Some 100, rejectedAt := Some 90\<rparr>])"
  by (simp add: model_defs sample_defs Let_def)

section \<open>Administrative override\<close>

text \<open>
  Claim C8: the override sets the expense's status to the decision in any prior state,
  stamps the final approver and the dates, and marks every pending step
  \<^verbatim>\<open>'overridden'\<close>. The handler assigns all of this, but \<^verbatim>\<open>'overridden'\<close> is not in
  the enum of \<^verbatim>\<open>approvals.status\<close>, so \<^verbatim>\<open>save\<close> rejects the document whenever a
  step was pending: the admin gets the 500 response and the stored expense is as before,
  still \<^verbatim>\<open>'in_review'\<close> with both steps pending.
\<close>

theorem overrideApproval_pending_step_not_saved:
  "overrideApproval
     [5 \<mapsto> ex_expense 1 ''in_review'' [pending_step 10 0, pending_step 11 1]]
     12 1 5 ''approved'' None 100 =
   (Inl FailedToOverrideApproval,
    [5 \<mapsto> ex_expense 1 ''in_review'' [pending_step 10 0, pending_step 11 1]])"
  by (simp add: model_defs sample_defs Let_def)

section \<open>Percentage policy\<close>

text \<open>
  Claim C2 as stated fails: \<^verbatim>\<open>processApproval\<close> receives neither the rule nor its
  threshold. A percentage rule with threshold 50 and the approvers 10 and 11 gives a chain
  of two steps; after the approval of approver 10 the number of recorded approvals is
  \<open>ceil(50/100 * 2) = 1\<close>, and the expense stays \<^verbatim>\<open>'in_review'\<close>.
\<close>

theorem percentage_threshold_counterexample:
  "determineApprovers
     [ex_rule ''percentage'' (Some 50) [] False 1
        [\<lparr>user = 10, sequence = 0, isRequired = True\<rparr>,
         \<lparr>user = 11, sequence = 1, isRequired = True\<rparr>]]
     ex_users (ex_expense 1 ''pending'' []) = Inr [pending_step 10 0, pending_step 11 1] \<and>
   processApproval
     [5 \<mapsto> ex_expense 1 ''in_review'' [pending_step 10 0, pending_step 11 1]]
     ex_users 5 10 ''approved'' None 100 =
   (Inr ((ex_expense 1 ''in_review'' [decided_step 10 0 ''approved'' 100, pending_step 11 1])
           \<lparr>currentApprovalLevel := 1\<rparr>),
    [5 \<mapsto> (ex_expense 1 ''in_review'' [decided_step 10 0 ''approved'' 100, pending_step 11 1])
           \<lparr>currentApprovalLevel := 1\<rparr>]) \<and>
   approved_count
     ((ex_expense 1 ''in_review'' [decided_step 10 0 ''approved'' 100, pending_step 11 1])
        \<lparr>currentApprovalLevel := 1\<rparr>) = spec_percentage_required 50 2 \<and>
   expense.status
     ((ex_expense 1 ''in_review'' [decided_step 10 0 ''approved'' 100, pending_step 11 1])
        \<lparr>currentApprovalLevel := 1\<rparr>) \<noteq> ''approved''"
  by (simp add: model_defs sample_defs Let_def approved_count_def spec_percentage_required_def)

text \<open>
  Claim C2, amended: whatever the rule's policy and threshold, when an expense in review
  has no rejection and its steps are approved in chain order (the first \<open>k\<close> steps are
  approved, the others pending, and the approver of step \<open>k\<close> approves), the call
  succeeds, records approval number \<open>k + 1\<close>, and leaves the expense
  \<^verbatim>\<open>'approved'\<close> exactly when all \<open>N\<close> steps of the chain are then approved;
  otherwise the expense stays \<^verbatim>\<open>'in_review'\<close>.
\<close>

theorem approve_in_chain_order:
  assumes stored: "d i = Some e" and valid: "validate e"
    and rev: "expense.status e = ''in_review''"
    and known: "\<forall>s \<in> set (approvals e). us (approver s) \<noteq> None"
    and k: "k < length (approvals e)"
    and prefix: "\<forall>j < length (approvals e).
        approval.status (approvals e ! j) = (if j < k then ''approved'' else ''pending'')"
  shows "\<exists>e'. processApproval d us i (approver (approvals e ! k)) ''approved'' c now =
            (Inr e', d(i \<mapsto> e')) \<and>
          length (approvals e') = length (approvals e) \<and>
          approved_count e' = Suc k \<and>
          (expense.status e' = ''approved'' \<longleftrightarrow> approved_count e' = length (approvals e')) \<and>
          (expense.status e' = ''approved'' \<or> expense.status e' = ''in_review'')"
proof -
  let ?as = "approvals e"
  let ?step = "(?as ! k)\<lparr>approval.status := ''approved'', comments := c,
                 approval.approvedAt := Some now\<rparr>"
  let ?as' = "?as[k := ?step]"
  have kp: "approval.status (?as ! k) = ''pending''" using prefix k by simp
  have before: "\<forall>j<k. \<not> (approver (?as ! j) = approver (?as ! k) \<and> approval.status (?as ! j) = ''pending'')"
    using prefix k by simp
  have idx: "findIndex_pending us (approver (?as ! k)) ?as = Inr (Some k)"
    using findIndex_pending_first [OF known k refl kp before] .
  have st': "\<forall>j < length ?as'. (approval.status (?as' ! j) = ''approved'') \<longleftrightarrow> j < Suc k"
    using prefix k by (auto simp: nth_list_update less_Suc_eq)
  have cnt: "length (filter (\<lambda>a. approval.status a = ''approved'') ?as') = Suc k"
    by (rule length_filter_prefix) (use k st' in simp_all)
  have enum: "list_all (\<lambda>a. approval.status a \<in> set approval_status_enum) ?as'"
    using valid k by (auto simp: validate_def list_all_iff approval_status_enum_def
        dest!: set_update_subset_insert [THEN subsetD])
  have nxt: "nextPendingApproval k ?as' = None \<longleftrightarrow> Suc k = length ?as"
  proof
    assume n: "nextPendingApproval k ?as' = None"
    show "Suc k = length ?as"
    proof (rule ccontr)
      assume "Suc k \<noteq> length ?as"
      with k have sk: "Suc k < length ?as" by simp
      with prefix have "approval.status (?as ! Suc k) = ''pending''" by simp
      with sk have "approval.status (?as' ! Suc k) = ''pending''" by simp
      with n sk show False by (simp add: nextPendingApproval_None)
    qed
  next
    assume "Suc k = length ?as"
    then have "\<And>j. \<not> (k < j \<and> j < length ?as')" by auto
    then show "nextPendingApproval k ?as' = None"
      unfolding nextPendingApproval_None by blast
  qed
  show ?thesis
  proof (cases "Suc k = length ?as")
    case True
    with nxt have n: "nextPendingApproval k ?as' = None" by simp
    let ?e' = "e\<lparr>approvals := ?as', expense.status := ''approved'',
                 expense.approvedAt := Some now,
                 finalApprover := Some (approver (?as ! k))\<rparr>"
    have v: "validate ?e'" using valid enum by (simp add: validate_def expense_status_enum_def)
    have "processApproval d us i (approver (?as ! k)) ''approved'' c now = (Inr ?e', d(i \<mapsto> ?e'))"
      using stored idx n v by (simp add: processApproval_def Let_def save_def)
    moreover have "approved_count ?e' = Suc k" using cnt by (simp add: approved_count_def)
    ultimately show ?thesis using True by auto
  next
    case False
    with nxt obtain nx where n: "nextPendingApproval k ?as' = Some nx" by auto
    let ?e' = "e\<lparr>approvals := ?as', currentApprovalLevel := approval.sequence nx\<rparr>"
    have v: "validate ?e'" using valid enum by (simp add: validate_def)
    have "processApproval d us i (approver (?as ! k)) ''approved'' c now = (Inr ?e', d(i \<mapsto> ?e'))"
      using stored idx n v by (simp add: processApproval_def Let_def save_def)
    moreover have "approved_count ?e' = Suc k" using cnt by (simp add: approved_count_def)
    ultimately show ?thesis using False rev by auto
  qed
qed

theorem approve_in_chain_order_witness:
  "\<exists>e'. processApproval
           [5 \<mapsto> ex_expense 1 ''in_review'' [pending_step 10 0, pending_step 11 1]]
           ex_users 5 10 ''approved'' None 100 =
          (Inr e', [5 \<mapsto> e']) \<and>
        length (approvals e') = 2 \<and> approved_count e' = 1 \<and>
        expense.status e' = ''in_review''"
proof -
  let ?e = "ex_expense 1 ''in_review'' [pending_step 10 0, pending_step 11 1]"
  let ?d = "[5 \<mapsto> ?e] :: db"
  have stored: "?d 5 = Some ?e" by simp
  have valid: "validate ?e" by (simp add: model_defs sample_defs)
  have rev: "expense.status ?e = ''in_review''" by (simp add: sample_defs)
  have known: "\<forall>s \<in> set (approvals ?e). ex_users (approver s) \<noteq> None"
    by (simp add: model_defs sample_defs)
  have k: "0 < length (approvals ?e)" by (simp add: sample_defs)
  have prefix: "\<forall>j < length (approvals ?e).
        approval.status (approvals ?e ! j) = (if j < 0 then ''approved'' else ''pending'')"
    by (simp add: model_defs sample_defs less_Suc_eq)
  have a: "approver (approvals ?e ! 0) = 10" by (simp add: model_defs sample_defs)
  have l: "length (approvals ?e) = 2" by (simp add: sample_defs)
  from approve_in_chain_order [where d = ?d and i = 5 and e = ?e and us = ex_users and k = 0
      and c = None and now = 100, OF stored valid rev known k prefix]
  obtain e' where run: "processApproval [5 \<mapsto> ?e] ex_users 5 (approver (approvals ?e ! 0))
        ''approved'' None 100 = (Inr e', [5 \<mapsto> ?e](5 \<mapsto> e'))"
    and len: "length (approvals e') = length (approvals ?e)"
    and cnt: "approved_count e' = Suc 0"
    and iff: "expense.status e' = ''approved'' \<longleftrightarrow> approved_count e' = length (approvals e')"
    and st: "expense.status e' = ''approved'' \<or> expense.status e' = ''in_review''"
    by blast
  from iff cnt len l st have "expense.status e' = ''in_review''" by simp
  moreover from run a have "processApproval [5 \<mapsto> ?e] ex_users 5 10 ''approved'' None 100 =
      (Inr e', [5 \<mapsto> e'])" by simp
  ultimately show ?thesis using len l cnt by auto
qed

section \<open>Steps already decided\<close>




section \<open>Rule matching\<close>

text \<open>
  Claim C4 as stated fails: the query of \<^verbatim>\<open>determineApprovers\<close> filters on company,
  \<^verbatim>\<open>isActive\<close> and the amount range only. A rule restricted to the category
  \<^verbatim>\<open>'travel'\<close> is selected for an expense of category \<^verbatim>\<open>'food'\<close>, which does not
  match it in the specification's sense, and its approver becomes the chain.
\<close>

theorem category_filter_counterexample:
  "rule_query (ex_expense 1 ''pending'' [])
     (ex_rule ''sequential'' None [''travel''] False 1 [\<lparr>user = 11, sequence = 0, isRequired = True\<rparr>]) \<and>
   \<not> spec_rule_matches (ex_expense 1 ''pending'' [])
       \<lparr>manager = Some 10, department = Some ''sales''\<rparr>
       (ex_rule ''sequential'' None [''travel''] False 1 [\<lparr>user = 11, sequence = 0, isRequired = True\<rparr>]) \<and>
   determineApprovers
     [ex_rule ''sequential'' None [''travel''] False 1 [\<lparr>user = 11, sequence = 0, isRequired = True\<rparr>]]
     ex_users (ex_expense 1 ''pending'' []) = Inr [pending_step 11 0]"
  by (simp add: model_defs sample_defs spec_rule_matches_def)

text \<open>
  Claim C4, amended: \<^verbatim>\<open>determineApprovers\<close> treats a rule of the collection as matching
  if and only if the rule belongs to the expense's company, is active, and the expense's
  converted amount lies in the inclusive range \<open>[minAmount, maxAmount]\<close>; the
  resolved chain stays the same when the categories and departments of the rules, the
  category of the expense and the departments of the users are replaced by any others.
\<close>

theorem find_rules_amount_only:
  "set (find_rules coll e) =
     {r \<in> set coll. approvalRule.company r = expense.company e \<and> isActive r \<and>
        minAmount (conditions r) \<le> convertedAmount e \<and>
        convertedAmount e \<le> maxAmount (conditions r)} \<and>
   determineApprovers
     (map (\<lambda>r. r\<lparr>conditions := (conditions r)\<lparr>categories := cs r, departments := ds r\<rparr>\<rparr>) coll)
     (\<lambda>i. map_option (\<lambda>u. u\<lparr>department := dep i\<rparr>) (us i))
     (e\<lparr>category := cat\<rparr>) =
   determineApprovers coll us e"
proof
  show "set (find_rules coll e) =
     {r \<in> set coll. approvalRule.company r = expense.company e \<and> isActive r \<and>
        minAmount (conditions r) \<le> convertedAmount e \<and>
        convertedAmount e \<le> maxAmount (conditions r)}"
    by (auto simp: find_rules_def rule_query_def)
next
  let ?g = "\<lambda>r. r\<lparr>conditions := (conditions r)\<lparr>categories := cs r, departments := ds r\<rparr>\<rparr>"
  let ?us = "\<lambda>i. map_option (\<lambda>u. u\<lparr>department := dep i\<rparr>) (us i)"
  let ?e = "e\<lparr>category := cat\<rparr>"
  have f: "find_rules (map ?g coll) ?e = map ?g (find_rules coll e)"
    by (rule find_rules_map_commute) (simp_all add: rule_query_def)
  show "determineApprovers (map ?g coll) ?us ?e = determineApprovers coll us e"
  proof (cases "find_rules coll e")
    case Nil
    with f show ?thesis
      by (simp add: determineApprovers_def manager_steps_department)
  next
    case (Cons r rs)
    with f have g: "find_rules (map ?g coll) ?e = ?g r # map ?g rs" by simp
    show ?thesis
      unfolding determineApprovers_rule [OF Cons] determineApprovers_rule [OF g]
      by (simp add: manager_steps_department rule_steps_department cong: option.case_cong)
  qed
qed

section \<open>Rule selection and the default chain\<close>




section \<open>The chain of a matching rule\<close>

text \<open>
  Claim C6 as stated fails: the shift depends on the rule's flag, not on whether a
  manager was prepended. Employee 2 has no manager; under a rule that requires manager
  approval the only configured approver, of sequence 0, lands at sequence 1 in a chain
  without a manager step.
\<close>

theorem shift_without_manager_counterexample:
  "ex_users (employee (ex_expense 2 ''pending'' [])) = Some \<lparr>manager = None, department = None\<rparr> \<and>
   determineApprovers
     [ex_rule ''sequential'' None [] True 1 [\<lparr>user = 11, sequence = 0, isRequired = True\<rparr>]]
     ex_users (ex_expense 2 ''pending'' []) =
     Inr [\<lparr>approver = 11, sequence = 1, status = ''pending'', comments = None, approvedAt = None\<rparr>]"
  by (simp add: model_defs sample_defs)

text \<open>
  Claim C6, amended: for the selected rule (the employee exists when the rule requires
  manager approval, the rule's approvers exist, and the configured sequences are integers
  below \<open>2^53\<close> in absolute value, where the addition of Numbers is exact), the chain
  consists of the employee's manager at sequence 0 when the rule requires manager approval
  and the employee has a manager, and of the rule's configured approvers with each
  sequence shifted by +1 exactly when the rule requires manager approval. The chain holds
  these steps and no others, is sorted ascending by sequence, keeps steps of equal
  sequence in the order manager first, then rule order, and every step is
  \<^verbatim>\<open>'pending'\<close>.
\<close>

theorem rule_chain_sorted_shifted:
  assumes top: "find_rules coll e = r # rs"
    and emp: "requireManagerApproval (rules r) \<longrightarrow> us (employee e) = Some emp"
    and known: "\<forall>a \<in> set (approvers r). us (user a) \<noteq> None"
    and safe: "\<forall>a \<in> set (approvers r). \<bar>rule_approver.sequence a\<bar> < 2 ^ 53"
    and pre: "pre =
      (if requireManagerApproval (rules r) then
         (case manager emp of
            Some m \<Rightarrow> [\<lparr>approver = m, sequence = 0, status = ''pending'', comments = None,
                         approvedAt = None\<rparr>]
          | None \<Rightarrow> [])
       else []) @
      map (\<lambda>a. \<lparr>approver = user a,
                  sequence = rule_approver.sequence a +
                    (if requireManagerApproval (rules r) then 1 else 0),
                  status = ''pending'', comments = None, approvedAt = None\<rparr>)
        (approvers r)"
  shows "\<exists>chain. determineApprovers coll us e = Inr chain \<and>
           mset chain = mset pre \<and>
           sorted (map approval.sequence chain) \<and>
           (\<forall>k. filter (\<lambda>s. approval.sequence s = k) chain =
                filter (\<lambda>s. approval.sequence s = k) pre) \<and>
           (\<forall>s \<in> set chain. approval.status s = ''pending'')"
proof -
  let ?shift = "if requireManagerApproval (rules r) then 1 else 0 :: int"
  have exact: "\<forall>a \<in> set (approvers r).
      number_add (rule_approver.sequence a) ?shift = rule_approver.sequence a + ?shift"
    using safe by (simp add: number_add_safe)
  have "rule_steps us ?shift (approvers r) =
      Some (map (\<lambda>a. pending_step (user a) (number_add (rule_approver.sequence a) ?shift))
              (approvers r))"
    using known by (rule rule_steps_known)
  also have "map (\<lambda>a. pending_step (user a) (number_add (rule_approver.sequence a) ?shift))
              (approvers r) =
      map (\<lambda>a. pending_step (user a) (rule_approver.sequence a + ?shift)) (approvers r)"
    using exact by (intro map_cong) simp_all
  finally have steps: "rule_steps us ?shift (approvers r) =
      Some (map (\<lambda>a. pending_step (user a) (rule_approver.sequence a + ?shift)) (approvers r))" .
  have "determineApprovers coll us e = Inr (sort_key approval.sequence pre)"
    unfolding determineApprovers_rule [OF top] steps using emp
    by (subst pre) (auto simp: manager_steps_def pending_step_def split: option.splits)
  moreover have "\<forall>s \<in> set pre. approval.status s = ''pending''"
  proof (cases "requireManagerApproval (rules r)")
    case True
    then show ?thesis
    proof (cases "manager emp")
      case None
      with True show ?thesis by (subst pre) auto
    next
      case (Some m)
      with True show ?thesis by (subst pre) auto
    qed
  next
    case False
    then show ?thesis by (subst pre) auto
  qed
  ultimately show ?thesis
    by (auto simp: sort_key_stable)
qed

theorem rule_chain_sorted_shifted_witness:
  "\<exists>chain.
     determineApprovers
       [ex_rule ''sequential'' None [] True 1
          [\<lparr>user = 11, sequence = 1, isRequired = True\<rparr>,
           \<lparr>user = 12, sequence = 0, isRequired = True\<rparr>]]
       ex_users (ex_expense 1 ''pending'' []) = Inr chain \<and>
     mset chain = mset [pending_step 10 0, pending_step 11 2, pending_step 12 1] \<and>
     sorted (map approval.sequence chain) \<and>
     (\<forall>s \<in> set chain. approval.status s = ''pending'')"
proof -
  let ?r = "ex_rule ''sequential'' None [] True 1
              [\<lparr>user = 11, sequence = 1, isRequired = True\<rparr>,
               \<lparr>user = 12, sequence = 0, isRequired = True\<rparr>]"
  let ?e = "ex_expense 1 ''pending'' []"
  let ?emp = "\<lparr>manager = Some 10, department = Some ''sales''\<rparr>"
  let ?pre = "[pending_step 10 0, pending_step 11 2, pending_step 12 1]"
  have top: "find_rules [?r] ?e = ?r # []"
    by (simp add: find_rules_def rule_query_def sample_defs)
  have emp: "requireManagerApproval (rules ?r) \<longrightarrow> ex_users (employee ?e) = Some ?emp"
    by (simp add: sample_defs)
  have known: "\<forall>a \<in> set (approvers ?r). ex_users (user a) \<noteq> None"
    by (simp add: sample_defs)
  have safe: "\<forall>a \<in> set (approvers ?r). \<bar>rule_approver.sequence a\<bar> < 2 ^ 53"
    by (simp add: sample_defs)
  have pre: "?pre =
      (if requireManagerApproval (rules ?r) then
         (case manager ?emp of
            Some m \<Rightarrow> [\<lparr>approver = m, sequence = 0, status = ''pending'', comments = None,
                         approvedAt = None\<rparr>]
          | None \<Rightarrow> [])
       else []) @
      map (\<lambda>a. \<lparr>approver = user a,
                  sequence = rule_approver.sequence a +
                    (if requireManagerApproval (rules ?r) then 1 else 0),
                  status = ''pending'', comments = None, approvedAt = None\<rparr>)
        (approvers ?r)"
    by (simp add: sample_defs pending_step_def)
  from rule_chain_sorted_shifted [OF top emp known safe pre] show ?thesis by blast
qed

section \<open>Creation\<close>

text \<open>
  Claim C9: \<^verbatim>\<open>createExpense\<close> stores an expense exactly when the amount is positive,
  the category is one of the schema's and the chain resolves; for every expense it stores,
  the approvals are the resolved chain; if the chain is empty the status is \<^verbatim>\<open>'approved'\<close>,
  \<^verbatim>\<open>approvedAt\<close> is stamped and no step is pending; if it is not empty the status is
  \<^verbatim>\<open>'in_review'\<close> and \<^verbatim>\<open>currentApprovalLevel\<close> is the lowest sequence among the
  pending steps.
\<close>

theorem createExpense_initial_status:
  "((\<exists>e d'. createExpense d coll us newId empId companyId numAmount converted cat now = (Inr e, d'))
      \<longleftrightarrow>
        0 < numAmount \<and> cat \<in> set category_enum \<and>
        (\<exists>chain. determineApprovers coll us (new_expense empId companyId converted cat) =
           Inr chain)) \<and>
   (createExpense d coll us newId empId companyId numAmount converted cat now = (Inr e, d') \<longrightarrow>
      determineApprovers coll us (new_expense empId companyId converted cat) = Inr (approvals e) \<and>
      d' = d(newId \<mapsto> e) \<and>
      (approvals e = [] \<longrightarrow>
         expense.status e = ''approved'' \<and> expense.approvedAt e = Some now \<and>
         filter (\<lambda>s. approval.status s = ''pending'') (approvals e) = []) \<and>
      (approvals e \<noteq> [] \<longrightarrow>
         expense.status e = ''in_review'' \<and>
         currentApprovalLevel e =
           Min (approval.sequence ` {s \<in> set (approvals e). approval.status s = ''pending''})))"
proof (rule conjI)
  show "(\<exists>e d'. createExpense d coll us newId empId companyId numAmount converted cat now = (Inr e, d'))
      \<longleftrightarrow>
        0 < numAmount \<and> cat \<in> set category_enum \<and>
        (\<exists>chain. determineApprovers coll us (new_expense empId companyId converted cat) =
           Inr chain)"
    by (rule createExpense_succeeds_iff)
next
  let ?e0 = "new_expense empId companyId converted cat"
  show "createExpense d coll us newId empId companyId numAmount converted cat now = (Inr e, d') \<longrightarrow>
      determineApprovers coll us ?e0 = Inr (approvals e) \<and>
      d' = d(newId \<mapsto> e) \<and>
      (approvals e = [] \<longrightarrow>
         expense.status e = ''approved'' \<and> expense.approvedAt e = Some now \<and>
         filter (\<lambda>s. approval.status s = ''pending'') (approvals e) = []) \<and>
      (approvals e \<noteq> [] \<longrightarrow>
         expense.status e = ''in_review'' \<and>
         currentApprovalLevel e =
           Min (approval.sequence ` {s \<in> set (approvals e). approval.status s = ''pending''}))"
  proof (rule impI)
    assume created:
      "createExpense d coll us newId empId companyId numAmount converted cat now = (Inr e, d')"
    from created obtain chain where
      chain: "determineApprovers coll us ?e0 = Inr chain"
      by (auto simp: createExpense_def Let_def split: if_splits sum.splits)
    let ?e2 = "if length chain > 0 then
                 ?e0\<lparr>approvals := chain, expense.status := ''in_review'',
                      currentApprovalLevel := approval.sequence (chain ! 0)\<rparr>
               else ?e0\<lparr>approvals := chain, expense.status := ''approved'',
                      expense.approvedAt := Some now\<rparr>"
    from created chain have e: "e = ?e2" and d': "d' = d(newId \<mapsto> e)"
      by (auto simp: createExpense_def Let_def dest!: save_cases split: if_splits prod.splits sum.splits)
    from e have as: "approvals e = chain" by (simp split: if_splits)
    from determineApprovers_chain [OF chain] have
      srt: "sorted (map approval.sequence chain)" and
      pen: "\<forall>s \<in> set chain. approval.status s = ''pending''" by simp_all
    from pen have all: "{s \<in> set chain. approval.status s = ''pending''} = set chain" by auto
    have lvl: "chain \<noteq> [] \<Longrightarrow>
        currentApprovalLevel e = Min (approval.sequence ` set chain)"
      using e sorted_first_Min [OF srt] by simp
    have rev: "chain \<noteq> [] \<Longrightarrow> expense.status e = ''in_review''" using e by simp
    have appr: "chain = [] \<Longrightarrow> expense.status e = ''approved'' \<and> expense.approvedAt e = Some now"
      using e by simp
    from chain as d' appr rev lvl all show
       "determineApprovers coll us ?e0 = Inr (approvals e) \<and>
        d' = d(newId \<mapsto> e) \<and>
        (approvals e = [] \<longrightarrow>
           expense.status e = ''approved'' \<and> expense.approvedAt e = Some now \<and>
           filter (\<lambda>s. approval.status s = ''pending'') (approvals e) = []) \<and>
        (approvals e \<noteq> [] \<longrightarrow>
           expense.status e = ''in_review'' \<and>
           currentApprovalLevel e =
             Min (approval.sequence ` {s \<in> set (approvals e). approval.status s = ''pending''}))"
      by auto
  qed
qed

theorem createExpense_initial_status_witness:
  "(\<exists>e. createExpense Map.empty [] ex_users 5 2 1 500 500 ''food'' 100 = (Inr e, [5 \<mapsto> e]) \<and>
        approvals e = [] \<and> expense.status e = ''approved'' \<and>
        expense.approvedAt e = Some 100) \<and>
   (\<exists>e. createExpense Map.empty [] ex_users 5 1 1 500 500 ''food'' 100 = (Inr e, [5 \<mapsto> e]) \<and>
        approvals e = [pending_step 10 1] \<and> expense.status e = ''in_review'' \<and>
        currentApprovalLevel e =
          Min (approval.sequence ` {s \<in> set (approvals e). approval.status s = ''pending''}))"
proof
  let ?e = "(ex_expense 2 ''approved'' [])\<lparr>expense.approvedAt := Some 100\<rparr>"
  have run: "createExpense Map.empty [] ex_users 5 2 1 500 500 ''food'' 100 = (Inr ?e, [5 \<mapsto> ?e])"
    by (simp add: model_defs sample_defs Let_def)
  have as: "approvals ?e = []" by (simp add: ex_expense_def)
  from createExpense_initial_status [THEN conjunct2, rule_format, OF run] as
  have "expense.status ?e = ''approved'' \<and> expense.approvedAt ?e = Some 100" by blast
  with run as show "\<exists>e. createExpense Map.empty [] ex_users 5 2 1 500 500 ''food'' 100 =
        (Inr e, [5 \<mapsto> e]) \<and> approvals e = [] \<and> expense.status e = ''approved'' \<and>
        expense.approvedAt e = Some 100"
    by blast
next
  let ?e = "(ex_expense 1 ''in_review'' [pending_step 10 1])\<lparr>currentApprovalLevel := 1\<rparr>"
  have run: "createExpense Map.empty [] ex_users 5 1 1 500 500 ''food'' 100 = (Inr ?e, [5 \<mapsto> ?e])"
    by (simp add: model_defs sample_defs Let_def)
  have as: "approvals ?e = [pending_step 10 1]" by (simp add: ex_expense_def)
  then have ne: "approvals ?e \<noteq> []" by simp
  from createExpense_initial_status [THEN conjunct2, rule_format, OF run] ne
  have "expense.status ?e = ''in_review'' \<and>
        currentApprovalLevel ?e =
          Min (approval.sequence ` {s \<in> set (approvals ?e). approval.status s = ''pending''})"
    by blast
  with run as show "\<exists>e. createExpense Map.empty [] ex_users 5 1 1 500 500 ''food'' 100 =
        (Inr e, [5 \<mapsto> e]) \<and> approvals e = [pending_step 10 1] \<and>
        expense.status e = ''in_review'' \<and>
        currentApprovalLevel e =
          Min (approval.sequence ` {s \<in> set (approvals e). approval.status s = ''pending''})"
    by blast
qed

section \<open>Stored step statuses\<close>

text \<open>
  Claim C10: after any history of create, approve and override requests on a collection
  whose steps carry statuses of the schema's enum (the empty collection, for one), every
  step of every stored expense is \<^verbatim>\<open>'pending'\<close>, \<^verbatim>\<open>'approved'\<close> or
  \<^verbatim>\<open>'rejected'\<close>; the override, which assigns \<^verbatim>\<open>'overridden'\<close> before saving,
  never gets a step of that status stored.
\<close>

theorem stored_step_status_in_enum:
  assumes "stored_steps_in_enum d" and "foldl handle d reqs i = Some e"
    and "s \<in> set (approvals e)"
  shows "approval.status s \<in> {''pending'', ''approved'', ''rejected''} \<and>
         approval.status s \<noteq> ''overridden''"
proof -
  from foldl_handle_stored_steps [OF assms(1), of reqs] assms(2,3)
  have "approval.status s \<in> set approval_status_enum"
    by (auto simp: stored_steps_in_enum_def list_all_iff)
  then show ?thesis by (auto simp: approval_status_enum_def)
qed

theorem stored_step_status_in_enum_witness:
  "foldl handle Map.empty
     [CreateExpense [] ex_users 5 1 1 500 500 ''food'' 100,
      OverrideApproval 12 1 5 ''approved'' None 101] 5 =
     Some ((ex_expense 1 ''in_review'' [pending_step 10 1])\<lparr>currentApprovalLevel := 1\<rparr>) \<and>
   approval.status (pending_step 10 1) \<in> {''pending'', ''approved'', ''rejected''} \<and>
   approval.status (pending_step 10 1) \<noteq> ''overridden''"
proof -
  let ?e = "(ex_expense 1 ''in_review'' [pending_step 10 1])\<lparr>currentApprovalLevel := 1\<rparr>"
  let ?reqs = "[CreateExpense [] ex_users 5 1 1 500 500 ''food'' 100,
      OverrideApproval 12 1 5 ''approved'' None 101]"
  have init: "stored_steps_in_enum Map.empty" by (simp add: stored_steps_in_enum_def)
  have run: "foldl handle Map.empty ?reqs 5 = Some ?e"
    by (simp add: model_defs sample_defs Let_def)
  have mem: "pending_step 10 1 \<in> set (approvals ?e)" by (simp add: ex_expense_def)
  from stored_step_status_in_enum [OF init run mem] run show ?thesis by blast
qed

end
